theory Spec2Isabelle
  imports Main
begin

section \<open>The Alertmanager configuration editor\<close>

text \<open>
  A shallow embedding of \<^verbatim>\<open>AlertmanagerConfigEditor.tsx\<close>: the React component that
  lets an operator edit the Alertmanager YAML configuration of a tenant, validates the
  text locally on every change and publishes it on request.

  The component is event driven. Its state (the \<^verbatim>\<open>configRef\<close> cell, the
  \<^verbatim>\<open>useState\<close> slot, the timers armed by \<^verbatim>\<open>debounce\<close>, the promises not yet
  settled) is a record that every handler takes and returns. The collaborators the
  component calls but does not define (the YAML parser, the schema, the editor's marker
  store) are the fields of an environment record.
\<close>

subsection \<open>Values supplied by the hooks\<close>

text \<open>
  The types of the values returned by \<^verbatim>\<open>useTenant\<close>, \<^verbatim>\<open>useAlertmanager\<close> and
  \<^verbatim>\<open>useFormState\<close> are declared outside the file; the records below hold the fields
  the component reads. An optional field is an \<open>option\<close>.
\<close>

record tenant_rec =
  name :: string

record alertmanager_rec =
  am_header :: "string option"
  am_config :: "string option"

record AlertmanagerUpdateResponse =
  success :: bool
  error_raw_response :: "string option"

record FormData =
  remoteValidation :: AlertmanagerUpdateResponse

record form =
  status :: string
  data :: FormData

definition defaultData :: FormData where
  "defaultData = \<lparr>remoteValidation = \<lparr>success = True, error_raw_response = None\<rparr>\<rparr>"

text \<open>The payload of the \<^verbatim>\<open>updateAlertmanager\<close> action.\<close>

record updateAlertmanager =
  tenantId :: string
  header :: string
  config :: string
  formId :: string

subsection \<open>Collaborators\<close>

datatype exception = YAMLException string

record validationCheckOptions =
  useModelMarkers :: bool

text \<open>
  \<open>yamlLoad\<close> is \<^verbatim>\<open>yamlParser.load(text, {schema: JSON_SCHEMA})\<close>: the parsed data, or
  the exception it throws. \<open>schemaValidate\<close> is the outcome of the promise returned by
  \<^verbatim>\<open>alertmanagerConfigSchema.validate(data, {strict: true})\<close>: \<open>True\<close> when it resolves,
  \<open>False\<close> when it rejects. \<open>getModelMarkers\<close> is
  \<^verbatim>\<open>editor.getModelMarkers({resource: monaco.Uri.parse(filename)})\<close>.
\<close>

record ('p, 'm) collaborators =
  yamlLoad :: "string \<Rightarrow> exception + 'p"
  schemaValidate :: "'p \<Rightarrow> bool"
  getModelMarkers :: "string \<Rightarrow> 'm list"

subsection \<open>lodash's debounce\<close>

text \<open>
  \<^verbatim>\<open>debounce(func, wait, options)\<close> returns a function with private state. The record
  \<open>debounced\<close> is that closure: the settings fixed at creation and the variables
  \<^verbatim>\<open>lastArgs\<close>, \<^verbatim>\<open>lastCallTime\<close>, \<^verbatim>\<open>lastInvokeTime\<close> and \<^verbatim>\<open>timerId\<close>. A pending
  \<^verbatim>\<open>setTimeout\<close> is the time at which it expires. Both wrappers of the component wrap
  \<^verbatim>\<open>validationCheck\<close>; \<open>wrapper\<close> records which of the two a closure is
  (\<^verbatim>\<open>validationCheckOnChangeStart\<close> or \<^verbatim>\<open>checkValidationOnChangePause\<close>), so that the
  log can tell their invocations apart. The arguments of a call are the filename and
  the optional options object. Times are in milliseconds.
\<close>

datatype wrapper = OnChangeStart | OnChangePause

type_synonym arguments = "string \<times> validationCheckOptions option"

record debounce_options =
  opt_leading :: "bool option"
  opt_maxWait :: "nat option"
  opt_trailing :: "bool option"

record debounced =
  wrapper :: wrapper
  wait :: nat
  leading :: bool
  maxing :: bool
  maxWait :: nat
  trailing :: bool
  lastArgs :: "arguments option"
  lastCallTime :: "nat option"
  lastInvokeTime :: nat
  timerId :: "nat option"

definition debounce :: "wrapper \<Rightarrow> nat \<Rightarrow> debounce_options \<Rightarrow> debounced" where
  "debounce w wt options =
     \<lparr>wrapper = w,
      wait = wt,
      leading = (case opt_leading options of None \<Rightarrow> False | Some b \<Rightarrow> b),
      maxing = (case opt_maxWait options of None \<Rightarrow> False | Some m \<Rightarrow> True),
      maxWait = (case opt_maxWait options of None \<Rightarrow> 0 | Some m \<Rightarrow> max m wt),
      trailing = (case opt_trailing options of None \<Rightarrow> True | Some b \<Rightarrow> b),
      lastArgs = None,
      lastCallTime = None,
      lastInvokeTime = 0,
      timerId = None\<rparr>"

text \<open>
  Each function of the closure returns the closure's new state and, when it calls
  \<^verbatim>\<open>func\<close>, the arguments of that call.
\<close>

definition invokeFunc :: "nat \<Rightarrow> debounced \<Rightarrow> debounced \<times> arguments option" where
  "invokeFunc time d = (d\<lparr>lastArgs := None, lastInvokeTime := time\<rparr>, lastArgs d)"

definition leadingEdge :: "nat \<Rightarrow> debounced \<Rightarrow> debounced \<times> arguments option" where
  "leadingEdge time d =
     (let d1 = d\<lparr>lastInvokeTime := time, timerId := Some (time + wait d)\<rparr>
      in if leading d1 then invokeFunc time d1 else (d1, None))"

definition remainingWait :: "nat \<Rightarrow> debounced \<Rightarrow> int" where
  "remainingWait time d =
     (let timeSinceLastCall = int time - (case lastCallTime d of None \<Rightarrow> 0 | Some t \<Rightarrow> int t);
          timeSinceLastInvoke = int time - int (lastInvokeTime d);
          timeWaiting = int (wait d) - timeSinceLastCall
      in if maxing d then min timeWaiting (int (maxWait d) - timeSinceLastInvoke)
         else timeWaiting)"

definition shouldInvoke :: "nat \<Rightarrow> debounced \<Rightarrow> bool" where
  "shouldInvoke time d =
     (case lastCallTime d of
        None \<Rightarrow> True
      | Some t \<Rightarrow>
          (let timeSinceLastCall = int time - int t;
               timeSinceLastInvoke = int time - int (lastInvokeTime d)
           in int (wait d) \<le> timeSinceLastCall \<or> timeSinceLastCall < 0 \<or>
              (maxing d \<and> int (maxWait d) \<le> timeSinceLastInvoke)))"

definition trailingEdge :: "nat \<Rightarrow> debounced \<Rightarrow> debounced \<times> arguments option" where
  "trailingEdge time d =
     (let d1 = d\<lparr>timerId := None\<rparr>
      in if trailing d1 \<and> lastArgs d1 \<noteq> None then invokeFunc time d1
         else (d1\<lparr>lastArgs := None\<rparr>, None))"

definition timerExpired :: "nat \<Rightarrow> debounced \<Rightarrow> debounced \<times> arguments option" where
  "timerExpired time d =
     (if shouldInvoke time d then trailingEdge time d
      else (d\<lparr>timerId := Some (time + nat (remainingWait time d))\<rparr>, None))"

definition debounced_call :: "nat \<Rightarrow> arguments \<Rightarrow> debounced \<Rightarrow> debounced \<times> arguments option" where
  "debounced_call time args d =
     (let isInvoking = shouldInvoke time d;
          d1 = d\<lparr>lastArgs := Some args, lastCallTime := Some time\<rparr>
      in if isInvoking \<and> timerId d1 = None then leadingEdge time d1
         else if isInvoking \<and> maxing d1 then
           invokeFunc time (d1\<lparr>timerId := Some (time + wait d1)\<rparr>)
         else if timerId d1 = None then (d1\<lparr>timerId := Some (time + wait d1)\<rparr>, None)
         else (d1, None))"

subsection \<open>The component's state\<close>

text \<open>
  \<open>call\<close> is the log of what the pipeline did: an invocation of \<^verbatim>\<open>validationCheck\<close> by
  one of the two wrappers at a time, a marker query for a filename, a parse of a text,
  a call of the schema validator.
\<close>

datatype call =
  Invoke wrapper nat
  | GetModelMarkers string
  | YamlLoad string
  | SchemaValidate

record component =
  tenant :: "tenant_rec option"
  alertmanager :: "alertmanager_rec option"
  form_id :: string
  formState :: form
  configRef :: string
  configValid :: "bool option"
  now :: nat
  timers :: "debounced list"
  pending :: "bool list"
  calls :: "call list"
  dispatched :: "updateAlertmanager list"

text \<open>\<^verbatim>\<open>x || ""\<close> on an optional string.\<close>

definition or_empty :: "string option \<Rightarrow> string" where
  "or_empty x = (case x of None \<Rightarrow> [] | Some v \<Rightarrow> v)"

text \<open>
  The first render: \<^verbatim>\<open>useRef(alertmanager?.config || "")\<close> and \<^verbatim>\<open>useState(null)\<close>.
\<close>

definition mount ::
  "tenant_rec option \<Rightarrow> alertmanager_rec option \<Rightarrow> string \<Rightarrow> form \<Rightarrow> nat \<Rightarrow> component" where
  "mount t a fid fs time =
     \<lparr>tenant = t, alertmanager = a, form_id = fid, formState = fs,
      configRef = or_empty (case a of None \<Rightarrow> None | Some r \<Rightarrow> am_config r),
      configValid = None,
      now = time, timers = [], pending = [], calls = [], dispatched = []\<rparr>"

definition setConfigValid :: "bool \<Rightarrow> component \<Rightarrow> component" where
  "setConfigValid b s = s\<lparr>configValid := Some b\<rparr>"

definition record_call :: "call \<Rightarrow> component \<Rightarrow> component" where
  "record_call c s = s\<lparr>calls := calls s @ [c]\<rparr>"

subsection \<open>validationCheck\<close>

text \<open>A computation that may throw: \<open>Inl\<close> is the exception.\<close>

definition and_then :: "exception + 'a \<Rightarrow> ('a \<Rightarrow> exception + 'b) \<Rightarrow> exception + 'b" where
  "and_then r f = (case r of Inl e \<Rightarrow> Inl e | Inr v \<Rightarrow> f v)"

definition try_catch :: "exception + 'a \<Rightarrow> (exception \<Rightarrow> exception + 'a) \<Rightarrow> exception + 'a" where
  "try_catch r h = (case r of Inl e \<Rightarrow> h e | Inr v \<Rightarrow> Inr v)"

text \<open>
  \<^verbatim>\<open>options?.useModelMarkers ? editor.getModelMarkers(...) : []\<close>, with the query
  logged when it is made.
\<close>

definition query_markers ::
  "('p, 'm) collaborators \<Rightarrow> string \<Rightarrow> validationCheckOptions option \<Rightarrow> component
     \<Rightarrow> 'm list \<times> component" where
  "query_markers env filename options s =
     (if (case options of None \<Rightarrow> False | Some opt \<Rightarrow> useModelMarkers opt)
      then (getModelMarkers env filename, record_call (GetModelMarkers filename) s)
      else ([], s))"

text \<open>
  The body of the \<^verbatim>\<open>try\<close> block: parse \<^verbatim>\<open>configRef.current\<close>, then start the schema
  validation, whose promise settles later (its outcome joins \<open>pending\<close>).
\<close>

definition try_block :: "('p, 'm) collaborators \<Rightarrow> component \<Rightarrow> exception + component" where
  "try_block env s =
     and_then (yamlLoad env (configRef s))
       (\<lambda>parsedData.
          Inr ((record_call SchemaValidate s)
                 \<lparr>pending := pending s @ [schemaValidate env parsedData]\<rparr>))"

text \<open>
  The parse is logged before the \<^verbatim>\<open>try\<close> block is entered, so that the entry is there
  whether or not the parser throws.
\<close>

definition validationCheck ::
  "('p, 'm) collaborators \<Rightarrow> string \<Rightarrow> validationCheckOptions option \<Rightarrow> component
     \<Rightarrow> exception + component" where
  "validationCheck env filename options s =
     (case query_markers env filename options s of
        (markers, s1) \<Rightarrow>
          if length markers = 0 then
            (let s2 = record_call (YamlLoad (configRef s1)) s1
             in try_catch (try_block env s2) (\<lambda>e. Inr (setConfigValid False s2)))
          else Inr (setConfigValid False s1))"

subsection \<open>handleConfigChange and the timers\<close>

text \<open>
  A wrapper's call of \<^verbatim>\<open>func\<close>: \<^verbatim>\<open>validationCheck\<close> applied to the stored arguments.
\<close>

definition invoke ::
  "('p, 'm) collaborators \<Rightarrow> wrapper \<Rightarrow> arguments option \<Rightarrow> component
     \<Rightarrow> exception + component" where
  "invoke env w invocation s =
     (case invocation of
        None \<Rightarrow> Inr s
      | Some (filename, options) \<Rightarrow>
          validationCheck env filename options (record_call (Invoke w (now s)) s))"

text \<open>
  A closure is reachable only from its pending timer: \<open>timers\<close> holds the closures
  whose \<^verbatim>\<open>timerId\<close> is set, in the order the timers were set.
\<close>

definition arm :: "debounced \<Rightarrow> component \<Rightarrow> component" where
  "arm d s = (if timerId d = None then s else s\<lparr>timers := timers s @ [d]\<rparr>)"

definition call_debounced ::
  "('p, 'm) collaborators \<Rightarrow> debounced \<Rightarrow> arguments \<Rightarrow> component \<Rightarrow> exception + component" where
  "call_debounced env d args s =
     (case debounced_call (now s) args d of
        (d', invocation) \<Rightarrow> invoke env (wrapper d) invocation (arm d' s))"

text \<open>
  \<^verbatim>\<open>handleConfigChange\<close> builds both wrappers anew on every call, stores the new text
  and calls each wrapper with the filename alone.
\<close>

definition handleConfigChange ::
  "('p, 'm) collaborators \<Rightarrow> string \<Rightarrow> string \<Rightarrow> component \<Rightarrow> exception + component" where
  "handleConfigChange env newConfig filename s =
     (let onChangeStart =
            debounce OnChangeStart 300
              \<lparr>opt_leading = Some True, opt_maxWait = None, opt_trailing = Some False\<rparr>;
          onChangePause =
            debounce OnChangePause 500
              \<lparr>opt_leading = None, opt_maxWait = Some 5000, opt_trailing = None\<rparr>;
          s1 = s\<lparr>configRef := newConfig\<rparr>
      in and_then (call_debounced env onChangeStart (filename, None) s1)
           (call_debounced env onChangePause (filename, None)))"

text \<open>
  The event loop, one millisecond at a time: the clock advances, and the timers that
  have expired run in the order they were set. A timer that runs leaves \<open>timers\<close>, and
  comes back when \<^verbatim>\<open>timerExpired\<close> sets it again.
\<close>

definition due :: "nat \<Rightarrow> debounced \<Rightarrow> bool" where
  "due time d = (case timerId d of None \<Rightarrow> False | Some e \<Rightarrow> e \<le> time)"

fun fire ::
  "('p, 'm) collaborators \<Rightarrow> debounced list \<Rightarrow> component \<Rightarrow> exception + component" where
  "fire env [] s = Inr s"
| "fire env (d # ds) s =
     (case timerExpired (now s) d of
        (d', invocation) \<Rightarrow> and_then (invoke env (wrapper d) invocation (arm d' s)) (fire env ds))"

definition tick :: "('p, 'm) collaborators \<Rightarrow> component \<Rightarrow> exception + component" where
  "tick env s =
     (let s1 = s\<lparr>now := now s + 1\<rparr>
      in fire env (filter (due (now s1)) (timers s1))
           (s1\<lparr>timers := filter (\<lambda>d. \<not> due (now s1) d) (timers s1)\<rparr>))"

fun elapse :: "('p, 'm) collaborators \<Rightarrow> nat \<Rightarrow> component \<Rightarrow> exception + component" where
  "elapse env 0 s = Inr s"
| "elapse env (Suc n) s = and_then (tick env s) (elapse env n)"

text \<open>
  A pending schema validation settles: \<^verbatim>\<open>.then\<close> sets the verdict to true,
  \<^verbatim>\<open>.catch\<close> to false.
\<close>

definition settle :: "nat \<Rightarrow> component \<Rightarrow> component" where
  "settle i s =
     (if i < length (pending s)
      then setConfigValid (pending s ! i)
             (s\<lparr>pending := take i (pending s) @ drop (Suc i) (pending s)\<rparr>)
      else s)"

subsection \<open>handleSave and the rendered view\<close>

definition handleSave :: "component \<Rightarrow> component" where
  "handleSave s =
     (case tenant s of
        None \<Rightarrow> s
      | Some t \<Rightarrow>
          if name t \<noteq> [] then
            s\<lparr>dispatched := dispatched s @
                [\<lparr>tenantId = name t,
                  header = or_empty (case alertmanager s of None \<Rightarrow> None | Some a \<Rightarrow> am_header a),
                  config = configRef s,
                  formId = form_id s\<rparr>]\<rparr>
          else s)"

record panel =
  panel_title :: string
  panel_content :: "string option"

text \<open>
  Modelled from the spec: \<^verbatim>\<open>CondRender\<close> of \<^verbatim>\<open>client/utils/rendering\<close> is not among
  the sources. The spec has the error panel rendered only when \<^verbatim>\<open>success\<close> is false,
  and the component passes \<^verbatim>\<open>unless={response.success}\<close>: the children are rendered
  unless the flag holds.
\<close>

definition CondRender :: "bool \<Rightarrow> 'a \<Rightarrow> 'a option" where
  "CondRender unless children = (if unless then None else Some children)"

definition ErrorPanel :: "AlertmanagerUpdateResponse \<Rightarrow> panel option" where
  "ErrorPanel response =
     CondRender (success response)
       \<lparr>panel_title = ''Error: Service side validation failed'',
        panel_content = error_raw_response response\<rparr>"

datatype view =
  Skeleton
  | Card (title: string) (editor_filename: string) (editor_data: string)
      (button_disabled: bool) (error_panel: "panel option")

definition render :: "component \<Rightarrow> view" where
  "render s =
     (case tenant s of
        None \<Rightarrow> Skeleton
      | Some t \<Rightarrow>
          Card (name t @ '' / Alertmanager Configuration'')
            ''alertmanager-config.yaml''
            (or_empty (case alertmanager s of None \<Rightarrow> None | Some a \<Rightarrow> am_config a))
            (status (formState s) \<noteq> ''active'')
            (ErrorPanel (remoteValidation (data (formState s)))))"

text \<open>A click on the publish button reaches \<^verbatim>\<open>handleSave\<close> when the button is enabled.\<close>

definition click :: "component \<Rightarrow> component" where
  "click s =
     (case render s of
        Skeleton \<Rightarrow> s
      | Card t f d disabled p \<Rightarrow> if disabled then s else handleSave s)"

subsection \<open>Runs\<close>

text \<open>
  What can happen to a mounted component: the editor reports a change, time passes, a
  schema validation settles, the operator clicks publish, the store hands new values
  to the hooks.
\<close>

datatype event =
  Change string string
  | Elapse nat
  | Settle nat
  | Click
  | Store "tenant_rec option" "alertmanager_rec option" form

definition step ::
  "('p, 'm) collaborators \<Rightarrow> event \<Rightarrow> component \<Rightarrow> exception + component" where
  "step env ev s =
     (case ev of
        Change newConfig filename \<Rightarrow> handleConfigChange env newConfig filename s
      | Elapse n \<Rightarrow> elapse env n s
      | Settle i \<Rightarrow> Inr (settle i s)
      | Click \<Rightarrow> Inr (click s)
      | Store t a fs \<Rightarrow> Inr (s\<lparr>tenant := t, alertmanager := a, formState := fs\<rparr>))"

fun run ::
  "('p, 'm) collaborators \<Rightarrow> event list \<Rightarrow> component \<Rightarrow> exception + component" where
  "run env [] s = Inr s"
| "run env (ev # evs) s = and_then (step env ev s) (run env evs)"

subsection \<open>Reading the log\<close>

text \<open>
  The times at which a wrapper has invoked \<^verbatim>\<open>validationCheck\<close>, the texts handed to the
  parser and the filenames whose markers were queried, each in the order of the log.
\<close>

definition invocations :: "wrapper \<Rightarrow> component \<Rightarrow> nat list" where
  "invocations w s =
     concat (map (\<lambda>c. case c of Invoke w' t \<Rightarrow> if w' = w then [t] else [] | _ \<Rightarrow> []) (calls s))"

definition loads :: "component \<Rightarrow> string list" where
  "loads s = concat (map (\<lambda>c. case c of YamlLoad t \<Rightarrow> [t] | _ \<Rightarrow> []) (calls s))"

definition marker_queries :: "component \<Rightarrow> string list" where
  "marker_queries s =
     concat (map (\<lambda>c. case c of GetModelMarkers f \<Rightarrow> [f] | _ \<Rightarrow> []) (calls s))"

definition schema_validations :: "component \<Rightarrow> nat" where
  "schema_validations s = length (filter (\<lambda>c. c = SchemaValidate) (calls s))"

text \<open>
  The changes of a run that starts at a given time, each with the time at which it
  happens and its filename, and the time a run takes.
\<close>

fun changes :: "nat \<Rightarrow> event list \<Rightarrow> (nat \<times> string) list" where
  "changes t [] = []"
| "changes t (Change newConfig filename # evs) = (t, filename) # changes t evs"
| "changes t (Elapse n # evs) = changes (t + n) evs"
| "changes t (ev # evs) = changes t evs"

fun duration :: "event list \<Rightarrow> nat" where
  "duration [] = 0"
| "duration (Elapse n # evs) = n + duration evs"
| "duration (ev # evs) = duration evs"

section \<open>Closed forms of the handlers\<close>

text \<open>
  The functions of this section are not in the source. They say in closed form what
  the handlers above compute when every wrapper was built by \<^verbatim>\<open>handleConfigChange\<close>;
  the lemmas that follow prove that they do.
\<close>

text \<open>
  \<open>after_check\<close>: the state after a wrapper has invoked \<^verbatim>\<open>validationCheck\<close> with the
  filename alone.
\<close>

definition after_check :: "('p, 'm) collaborators \<Rightarrow> wrapper \<Rightarrow> component \<Rightarrow> component" where
  "after_check env w s =
     (case yamlLoad env (configRef s) of
        Inl e \<Rightarrow> s\<lparr>configValid := Some False,
                    calls := calls s @ [Invoke w (now s), YamlLoad (configRef s)]\<rparr>
      | Inr parsedData \<Rightarrow>
          s\<lparr>pending := pending s @ [schemaValidate env parsedData],
            calls := calls s @ [Invoke w (now s), YamlLoad (configRef s), SchemaValidate]\<rparr>)"

text \<open>
  The two closures after the single call \<^verbatim>\<open>handleConfigChange\<close> makes of each at
  time \<open>t\<close>, and the state after \<^verbatim>\<open>handleConfigChange\<close>.
\<close>

definition startTimer :: "nat \<Rightarrow> debounced" where
  "startTimer t =
     \<lparr>wrapper = OnChangeStart, wait = 300, leading = True, maxing = False, maxWait = 0,
      trailing = False, lastArgs = None, lastCallTime = Some t, lastInvokeTime = t,
      timerId = Some (t + 300)\<rparr>"

definition pauseTimer :: "nat \<Rightarrow> string \<Rightarrow> debounced" where
  "pauseTimer t filename =
     \<lparr>wrapper = OnChangePause, wait = 500, leading = False, maxing = True, maxWait = 5000,
      trailing = True, lastArgs = Some (filename, None), lastCallTime = Some t,
      lastInvokeTime = t, timerId = Some (t + 500)\<rparr>"

definition changed ::
  "('p, 'm) collaborators \<Rightarrow> string \<Rightarrow> string \<Rightarrow> component \<Rightarrow> component" where
  "changed env newConfig filename s =
     (after_check env OnChangeStart (s\<lparr>configRef := newConfig\<rparr>))
       \<lparr>timers := timers s @ [startTimer (now s), pauseTimer (now s) filename]\<rparr>"

text \<open>
  \<open>clean u d\<close>: the closure \<open>d\<close> is one of these two and its timer has expired at \<open>u\<close>.
  \<open>fired\<close> is the state after the timers of a list of clean closures have run: each
  \<^verbatim>\<open>checkValidationOnChangePause\<close> among them invokes \<^verbatim>\<open>validationCheck\<close>; \<open>pauses\<close>
  counts them.
\<close>

definition clean :: "nat \<Rightarrow> debounced \<Rightarrow> bool" where
  "clean u d =
     ((\<exists>t. d = startTimer t \<and> t + 300 \<le> u) \<or> (\<exists>t f. d = pauseTimer t f \<and> t + 500 \<le> u))"

primrec fired :: "('p, 'm) collaborators \<Rightarrow> debounced list \<Rightarrow> component \<Rightarrow> component" where
  "fired env [] s = s"
| "fired env (d # ds) s =
     fired env ds (if wrapper d = OnChangePause then after_check env OnChangePause s else s)"

definition pauses :: "debounced list \<Rightarrow> nat" where
  "pauses ds = length (filter (\<lambda>d. wrapper d = OnChangePause) ds)"

text \<open>
  A history is the list of the changes so far, each with its time and filename.
  \<open>scheduled u h\<close> are the closures whose timers are pending at time \<open>u\<close> after the
  changes \<open>h\<close>. \<open>window a b h\<close> counts the changes of \<open>h\<close> whose 500 ms timer expires
  after \<open>a\<close> and no later than \<open>b\<close>.
\<close>

definition armed_by :: "nat \<Rightarrow> nat \<times> string \<Rightarrow> debounced list" where
  "armed_by u c =
     (if u < fst c + 300 then [startTimer (fst c)] else []) @
     (if u < fst c + 500 then [pauseTimer (fst c) (snd c)] else [])"

definition scheduled :: "nat \<Rightarrow> (nat \<times> string) list \<Rightarrow> debounced list" where
  "scheduled u h = concat (map (armed_by u) h)"

definition window :: "nat \<Rightarrow> nat \<Rightarrow> (nat \<times> string) list \<Rightarrow> nat" where
  "window a b h = length (filter (\<lambda>c. a < fst c + 500 \<and> fst c + 500 \<le> b) h)"

text \<open>
  What \<open>k\<close> checks of a text leave behind: \<open>outcomes\<close> are the promises they add,
  one for each check when the text parses and none when the parser throws;
  \<open>verdict_after\<close> is the stored verdict, set to false by a check whose parse throws
  and left alone by one whose parse returns.
\<close>

definition outcomes :: "('p, 'm) collaborators \<Rightarrow> string \<Rightarrow> nat \<Rightarrow> bool list" where
  "outcomes env text k =
     (case yamlLoad env text of Inl e \<Rightarrow> [] | Inr parsedData \<Rightarrow> replicate k (schemaValidate env parsedData))"

definition verdict_after ::
  "('p, 'm) collaborators \<Rightarrow> string \<Rightarrow> nat \<Rightarrow> bool option \<Rightarrow> bool option" where
  "verdict_after env text k v =
     (case yamlLoad env text of Inl e \<Rightarrow> if k = 0 then v else Some False | Inr parsedData \<Rightarrow> v)"

text \<open>The state after one millisecond, after \<open>n\<close> milliseconds, and after a run.\<close>

definition ticked ::
  "('p, 'm) collaborators \<Rightarrow> (nat \<times> string) list \<Rightarrow> component \<Rightarrow> component" where
  "ticked env h s =
     fired env (filter (due (Suc (now s))) (scheduled (now s) h))
       (s\<lparr>now := Suc (now s), timers := scheduled (Suc (now s)) h\<rparr>)"

primrec elapsed ::
  "('p, 'm) collaborators \<Rightarrow> (nat \<times> string) list \<Rightarrow> nat \<Rightarrow> component \<Rightarrow> component" where
  "elapsed env h 0 s = s"
| "elapsed env h (Suc n) s = elapsed env h n (ticked env h s)"

fun ran ::
  "('p, 'm) collaborators \<Rightarrow> (nat \<times> string) list \<Rightarrow> event list \<Rightarrow> component \<Rightarrow> component" where
  "ran env h [] s = s"
| "ran env h (Change c f # evs) s = ran env (h @ [(now s, f)]) evs (changed env c f s)"
| "ran env h (Elapse n # evs) s = ran env h evs (elapsed env h n s)"
| "ran env h (Settle i # evs) s = ran env h evs (settle i s)"
| "ran env h (Click # evs) s = ran env h evs (click s)"
| "ran env h (Store t a fs # evs) s =
     ran env h evs (s\<lparr>tenant := t, alertmanager := a, formState := fs\<rparr>)"

section \<open>Example runs\<close>

text \<open>Ten edits, 5 ms apart.\<close>

definition burst :: "event list" where
  "burst =
     [Change ''a'' ''alertmanager-config.yaml'', Elapse 5,
      Change ''ab'' ''alertmanager-config.yaml'', Elapse 5,
      Change ''abc'' ''alertmanager-config.yaml'', Elapse 5,
      Change ''abcd'' ''alertmanager-config.yaml'', Elapse 5,
      Change ''abcde'' ''alertmanager-config.yaml'', Elapse 5,
      Change ''abcdef'' ''alertmanager-config.yaml'', Elapse 5,
      Change ''abcdefg'' ''alertmanager-config.yaml'', Elapse 5,
      Change ''abcdefgh'' ''alertmanager-config.yaml'', Elapse 5,
      Change ''abcdefghi'' ''alertmanager-config.yaml'', Elapse 5,
      Change ''abcdefghij'' ''alertmanager-config.yaml'', Elapse 5]"

text \<open>Three edits, 100 ms apart, then a pause of one second.\<close>

definition three_edits_then_pause :: "event list" where
  "three_edits_then_pause =
     [Change ''a'' ''alertmanager-config.yaml'', Elapse 100,
      Change ''ab'' ''alertmanager-config.yaml'', Elapse 100,
      Change ''abc'' ''alertmanager-config.yaml'', Elapse 1000]"

section \<open>Runs that differ in the stored verdict\<close>

text \<open>
  \<open>erase\<close> forgets the value of the \<^verbatim>\<open>useState\<close> slot; two results agree when both
  are states, equal but for that value.
\<close>

definition erase :: "component \<Rightarrow> component" where
  "erase s = s\<lparr>configValid := None\<rparr>"

definition agree :: "exception + component \<Rightarrow> exception + component \<Rightarrow> bool" where
  "agree r r' =
     (case r of
        Inl e \<Rightarrow> False
      | Inr s \<Rightarrow> (case r' of Inl e' \<Rightarrow> False | Inr s' \<Rightarrow> erase s = erase s'))"

section \<open>Example inputs\<close>

text \<open>
  Collaborators for the examples: the parser rejects one text, the schema accepts
  every non-empty document, and the editor holds one marker for the edited file.
\<close>

definition example_env :: "(nat, string) collaborators" where
  "example_env =
     \<lparr>yamlLoad = (\<lambda>text. if text = ''route: ['' then Inl (YAMLException ''unexpected end of the stream'')
                       else Inr (length text)),
      schemaValidate = (\<lambda>parsedData. 0 < parsedData),
      getModelMarkers = (\<lambda>filename. if filename = ''alertmanager-config.yaml''
                                    then [''Missing property route''] else [])\<rparr>"

text \<open>A mounted component whose tenant is loaded, and one whose tenant is not.\<close>

definition example_state :: component where
  "example_state =
     mount (Some \<lparr>name = ''prod''\<rparr>) (Some \<lparr>am_header = None, am_config = Some ''route: {}''\<rparr>)
       ''form-1'' \<lparr>status = ''active'', data = defaultData\<rparr> 0"

definition loading_state :: component where
  "loading_state = mount None None ''form-1'' \<lparr>status = ''active'', data = defaultData\<rparr> 0"

text \<open>\<^verbatim>\<open>tenant?.name\<close> is falsy: the tenant is undefined or its name is empty.\<close>

definition tenant_name_absent :: "component \<Rightarrow> bool" where
  "tenant_name_absent s = (case tenant s of None \<Rightarrow> True | Some t \<Rightarrow> name t = [])"

section \<open>The handlers compute their closed forms\<close>

lemma invoke_filename_only:
  "invoke env w (Some (filename, None)) s = Inr (after_check env w s)"
  by (simp add: invoke_def validationCheck_def query_markers_def try_catch_def try_block_def
      and_then_def record_call_def setConfigValid_def after_check_def Let_def split: sum.splits)

lemma log_frame [simp]:
  "invocations w (s\<lparr>tenant := x0\<rparr>) = invocations w s"
  "invocations w (s\<lparr>alertmanager := x1\<rparr>) = invocations w s"
  "invocations w (s\<lparr>formState := x2\<rparr>) = invocations w s"
  "invocations w (s\<lparr>configRef := x3\<rparr>) = invocations w s"
  "invocations w (s\<lparr>configValid := x4\<rparr>) = invocations w s"
  "invocations w (s\<lparr>now := x5\<rparr>) = invocations w s"
  "invocations w (s\<lparr>timers := x6\<rparr>) = invocations w s"
  "invocations w (s\<lparr>pending := x7\<rparr>) = invocations w s"
  "invocations w (s\<lparr>dispatched := x8\<rparr>) = invocations w s"
  "loads (s\<lparr>tenant := x0\<rparr>) = loads s"
  "loads (s\<lparr>alertmanager := x1\<rparr>) = loads s"
  "loads (s\<lparr>formState := x2\<rparr>) = loads s"
  "loads (s\<lparr>configRef := x3\<rparr>) = loads s"
  "loads (s\<lparr>configValid := x4\<rparr>) = loads s"
  "loads (s\<lparr>now := x5\<rparr>) = loads s"
  "loads (s\<lparr>timers := x6\<rparr>) = loads s"
  "loads (s\<lparr>pending := x7\<rparr>) = loads s"
  "loads (s\<lparr>dispatched := x8\<rparr>) = loads s"
  "marker_queries (s\<lparr>tenant := x0\<rparr>) = marker_queries s"
  "marker_queries (s\<lparr>alertmanager := x1\<rparr>) = marker_queries s"
  "marker_queries (s\<lparr>formState := x2\<rparr>) = marker_queries s"
  "marker_queries (s\<lparr>configRef := x3\<rparr>) = marker_queries s"
  "marker_queries (s\<lparr>configValid := x4\<rparr>) = marker_queries s"
  "marker_queries (s\<lparr>now := x5\<rparr>) = marker_queries s"
  "marker_queries (s\<lparr>timers := x6\<rparr>) = marker_queries s"
  "marker_queries (s\<lparr>pending := x7\<rparr>) = marker_queries s"
  "marker_queries (s\<lparr>dispatched := x8\<rparr>) = marker_queries s"
  "schema_validations (s\<lparr>tenant := x0\<rparr>) = schema_validations s"
  "schema_validations (s\<lparr>alertmanager := x1\<rparr>) = schema_validations s"
  "schema_validations (s\<lparr>formState := x2\<rparr>) = schema_validations s"
  "schema_validations (s\<lparr>configRef := x3\<rparr>) = schema_validations s"
  "schema_validations (s\<lparr>configValid := x4\<rparr>) = schema_validations s"
  "schema_validations (s\<lparr>now := x5\<rparr>) = schema_validations s"
  "schema_validations (s\<lparr>timers := x6\<rparr>) = schema_validations s"
  "schema_validations (s\<lparr>pending := x7\<rparr>) = schema_validations s"
  "schema_validations (s\<lparr>dispatched := x8\<rparr>) = schema_validations s"
  by (simp_all add: invocations_def loads_def marker_queries_def schema_validations_def)

lemma after_check_fields [simp]:
  "now (after_check env w s) = now s"
  "timers (after_check env w s) = timers s"
  "configRef (after_check env w s) = configRef s"
  "tenant (after_check env w s) = tenant s"
  "alertmanager (after_check env w s) = alertmanager s"
  "form_id (after_check env w s) = form_id s"
  "formState (after_check env w s) = formState s"
  "dispatched (after_check env w s) = dispatched s"
  by (simp_all add: after_check_def split: sum.splits)

lemma after_check_log [simp]:
  "invocations w' (after_check env w s) = invocations w' s @ (if w' = w then [now s] else [])"
  "loads (after_check env w s) = loads s @ [configRef s]"
  "marker_queries (after_check env w s) = marker_queries s"
  by (simp_all add: after_check_def invocations_def loads_def marker_queries_def split: sum.splits)

lemma debounced_call_start:
  "debounced_call t (filename, None)
     (debounce OnChangeStart 300
        \<lparr>opt_leading = Some True, opt_maxWait = None, opt_trailing = Some False\<rparr>) =
   (startTimer t, Some (filename, None))"
  by (simp add: debounced_call_def debounce_def shouldInvoke_def leadingEdge_def invokeFunc_def
      startTimer_def Let_def)

lemma debounced_call_pause:
  "debounced_call t (filename, None)
     (debounce OnChangePause 500
        \<lparr>opt_leading = None, opt_maxWait = Some 5000, opt_trailing = None\<rparr>) =
   (pauseTimer t filename, None)"
  by (simp add: debounced_call_def debounce_def shouldInvoke_def leadingEdge_def invokeFunc_def
      pauseTimer_def Let_def)

lemma timerExpired_start:
  "t + 300 \<le> u \<Longrightarrow> timerExpired u (startTimer t) = ((startTimer t)\<lparr>timerId := None\<rparr>, None)"
  by (simp add: timerExpired_def shouldInvoke_def trailingEdge_def startTimer_def Let_def)

lemma timerExpired_pause:
  "t + 500 \<le> u \<Longrightarrow>
   timerExpired u (pauseTimer t filename) =
     ((pauseTimer t filename)\<lparr>lastArgs := None, lastInvokeTime := u, timerId := None\<rparr>,
      Some (filename, None))"
  by (simp add: timerExpired_def shouldInvoke_def trailingEdge_def invokeFunc_def pauseTimer_def
      Let_def)

lemma timer_facts [simp]:
  "timerId (startTimer t) = Some (t + 300)"
  "timerId (pauseTimer t f) = Some (t + 500)"
  "wrapper (startTimer t) = OnChangeStart"
  "wrapper (pauseTimer t f) = OnChangePause"
  "wrapper (debounce w wt options) = w"
  by (simp_all add: startTimer_def pauseTimer_def debounce_def)

lemma arm_timer [simp]:
  "arm (startTimer t) s = s\<lparr>timers := timers s @ [startTimer t]\<rparr>"
  "arm (pauseTimer t f) s = s\<lparr>timers := timers s @ [pauseTimer t f]\<rparr>"
  by (simp_all add: arm_def)

lemma call_debounced_start:
  "call_debounced env
     (debounce OnChangeStart 300
        \<lparr>opt_leading = Some True, opt_maxWait = None, opt_trailing = Some False\<rparr>)
     (filename, None) s =
   Inr (after_check env OnChangeStart (s\<lparr>timers := timers s @ [startTimer (now s)]\<rparr>))"
  by (simp add: call_debounced_def debounced_call_start invoke_filename_only)

lemma call_debounced_pause:
  "call_debounced env
     (debounce OnChangePause 500
        \<lparr>opt_leading = None, opt_maxWait = Some 5000, opt_trailing = None\<rparr>)
     (filename, None) s =
   Inr (s\<lparr>timers := timers s @ [pauseTimer (now s) filename]\<rparr>)"
  by (simp add: call_debounced_def debounced_call_pause invoke_def)

lemma after_check_timers_update:
  "after_check env w (s\<lparr>timers := ts\<rparr>) = (after_check env w s)\<lparr>timers := ts\<rparr>"
  by (simp add: after_check_def split: sum.splits)

lemma handleConfigChange_eq:
  "handleConfigChange env newConfig filename s =
     Inr ((after_check env OnChangeStart (s\<lparr>configRef := newConfig\<rparr>))
            \<lparr>timers := timers s @ [startTimer (now s), pauseTimer (now s) filename]\<rparr>)"
  by (simp add: handleConfigChange_def call_debounced_start call_debounced_pause and_then_def
      after_check_timers_update)

lemma fired_fields [simp]:
  "now (fired env ds s) = now s"
  "timers (fired env ds s) = timers s"
  "configRef (fired env ds s) = configRef s"
  "tenant (fired env ds s) = tenant s"
  "alertmanager (fired env ds s) = alertmanager s"
  "form_id (fired env ds s) = form_id s"
  "formState (fired env ds s) = formState s"
  "dispatched (fired env ds s) = dispatched s"
  by (induction ds arbitrary: s; simp)+

lemma fired_start [simp]:
  "invocations OnChangeStart (fired env ds s) = invocations OnChangeStart s"
  by (induction ds arbitrary: s) simp_all

lemma fired_marker_queries [simp]:
  "marker_queries (fired env ds s) = marker_queries s"
  by (induction ds arbitrary: s) simp_all

lemma fired_pause:
  "invocations OnChangePause (fired env ds s) =
     invocations OnChangePause s @ replicate (pauses ds) (now s)"
  by (induction ds arbitrary: s) (simp_all add: pauses_def replicate_app_Cons_same)

lemma fired_loads:
  "loads (fired env ds s) = loads s @ replicate (pauses ds) (configRef s)"
  by (induction ds arbitrary: s) (simp_all add: pauses_def replicate_app_Cons_same)

lemma fire_clean:
  "\<forall>d\<in>set ds. clean (now s) d \<Longrightarrow> fire env ds s = Inr (fired env ds s)"
proof (induction ds arbitrary: s)
  case Nil
  show ?case by simp
next
  case (Cons d ds)
  from Cons.prems have d: "clean (now s) d" and ds: "\<forall>x\<in>set ds. clean (now s) x"
    by simp_all
  from d consider (start) t where "d = startTimer t" "t + 300 \<le> now s"
    | (pause) t f where "d = pauseTimer t f" "t + 500 \<le> now s"
    unfolding clean_def by blast
  then show ?case
  proof cases
    case start
    have "fire env (d # ds) s = fire env ds s"
      using start by (simp add: timerExpired_start arm_def invoke_def and_then_def)
    with Cons.IH [of s] ds start show ?thesis by simp
  next
    case pause
    have "fire env (d # ds) s = fire env ds (after_check env OnChangePause s)"
      using pause
      by (simp add: timerExpired_pause arm_def invoke_filename_only and_then_def)
    with Cons.IH [of "after_check env OnChangePause s"] ds pause show ?thesis by simp
  qed
qed

lemma scheduled_simps [simp]:
  "scheduled u [] = []"
  "scheduled u (c # h) = armed_by u c @ scheduled u h"
  "scheduled u (h @ h') = scheduled u h @ scheduled u h'"
  by (simp_all add: scheduled_def)

lemma due_timer [simp]:
  "due u (startTimer t) = (t + 300 \<le> u)"
  "due u (pauseTimer t f) = (t + 500 \<le> u)"
  by (simp_all add: due_def)

lemma not_due_scheduled:
  "filter (\<lambda>d. \<not> due (Suc u) d) (scheduled u h) = scheduled (Suc u) h"
  by (induction h) (auto simp: armed_by_def)

lemma due_scheduled_clean:
  "d \<in> set (filter (due (Suc u)) (scheduled u h)) \<Longrightarrow> clean (Suc u) d"
  by (induction h) (auto simp: armed_by_def clean_def split: if_splits)

lemma pauses_due_scheduled:
  "pauses (filter (due (Suc u)) (scheduled u h)) = window u (Suc u) h"
  by (induction h) (auto simp: armed_by_def pauses_def window_def)

lemma tick_scheduled:
  assumes "timers s = scheduled (now s) h"
  shows "tick env s = Inr (ticked env h s)"
proof -
  have "\<forall>d\<in>set (filter (due (Suc (now s))) (scheduled (now s) h)). clean (Suc (now s)) d"
    using due_scheduled_clean by blast
  then show ?thesis
    using assms by (simp add: tick_def ticked_def Let_def not_due_scheduled fire_clean)
qed

lemma ticked_fields [simp]:
  "now (ticked env h s) = Suc (now s)"
  "timers (ticked env h s) = scheduled (Suc (now s)) h"
  "configRef (ticked env h s) = configRef s"
  "tenant (ticked env h s) = tenant s"
  "alertmanager (ticked env h s) = alertmanager s"
  "form_id (ticked env h s) = form_id s"
  "formState (ticked env h s) = formState s"
  "dispatched (ticked env h s) = dispatched s"
  by (simp_all add: ticked_def)

lemma ticked_log:
  "invocations OnChangeStart (ticked env h s) = invocations OnChangeStart s"
  "marker_queries (ticked env h s) = marker_queries s"
  "invocations OnChangePause (ticked env h s) =
     invocations OnChangePause s @ replicate (window (now s) (Suc (now s)) h) (Suc (now s))"
  "loads (ticked env h s) = loads s @ replicate (window (now s) (Suc (now s)) h) (configRef s)"
  by (simp_all add: ticked_def fired_pause fired_loads pauses_due_scheduled)

lemma elapse_scheduled:
  "timers s = scheduled (now s) h \<Longrightarrow> elapse env n s = Inr (elapsed env h n s)"
  by (induction n arbitrary: s) (simp_all add: tick_scheduled and_then_def)

lemma elapsed_fields [simp]:
  "now (elapsed env h n s) = now s + n"
  "configRef (elapsed env h n s) = configRef s"
  "tenant (elapsed env h n s) = tenant s"
  "alertmanager (elapsed env h n s) = alertmanager s"
  "form_id (elapsed env h n s) = form_id s"
  "formState (elapsed env h n s) = formState s"
  "dispatched (elapsed env h n s) = dispatched s"
  by (induction n arbitrary: s; simp)+

lemma elapsed_timers:
  "timers s = scheduled (now s) h \<Longrightarrow> timers (elapsed env h n s) = scheduled (now s + n) h"
  by (induction n arbitrary: s) simp_all

lemma window_split:
  "a \<le> b \<Longrightarrow> b \<le> c \<Longrightarrow> window a b h + window b c h = window a c h"
  by (induction h) (auto simp: window_def)

lemma window_append [simp]: "window a b (h @ h') = window a b h + window a b h'"
  by (simp add: window_def)

lemma elapsed_log:
  "invocations OnChangeStart (elapsed env h n s) = invocations OnChangeStart s"
  "marker_queries (elapsed env h n s) = marker_queries s"
  by (induction n arbitrary: s; simp add: ticked_log)+

lemma elapsed_pause:
  "length (invocations OnChangePause (elapsed env h n s)) =
     length (invocations OnChangePause s) + window (now s) (now s + n) h"
proof (induction n arbitrary: s)
  case 0
  show ?case by (simp add: window_def)
next
  case (Suc n)
  have "window (now s) (Suc (now s)) h + window (Suc (now s)) (Suc (now s) + n) h =
        window (now s) (Suc (now s) + n) h"
    by (rule window_split) simp_all
  then show ?case
    using Suc.IH [of "ticked env h s"] by (simp add: ticked_log)
qed

lemma elapsed_loads:
  "loads (elapsed env h n s) = loads s @ replicate (window (now s) (now s + n) h) (configRef s)"
proof (induction n arbitrary: s)
  case 0
  show ?case by (simp add: window_def)
next
  case (Suc n)
  have "window (now s) (Suc (now s)) h + window (Suc (now s)) (Suc (now s) + n) h =
        window (now s) (Suc (now s) + n) h"
    by (rule window_split) simp_all
  then show ?case
    using Suc.IH [of "ticked env h s"] by (simp add: ticked_log flip: replicate_add)
qed

lemma changed_fields [simp]:
  "now (changed env c f s) = now s"
  "timers (changed env c f s) = timers s @ [startTimer (now s), pauseTimer (now s) f]"
  "configRef (changed env c f s) = c"
  "tenant (changed env c f s) = tenant s"
  "alertmanager (changed env c f s) = alertmanager s"
  "form_id (changed env c f s) = form_id s"
  "formState (changed env c f s) = formState s"
  "dispatched (changed env c f s) = dispatched s"
  by (simp_all add: changed_def)

lemma changed_log [simp]:
  "invocations w (changed env c f s) =
     invocations w s @ (if w = OnChangeStart then [now s] else [])"
  "loads (changed env c f s) = loads s @ [c]"
  "marker_queries (changed env c f s) = marker_queries s"
  by (simp_all add: changed_def)

lemma settle_frame [simp]:
  "now (settle i s) = now s"
  "timers (settle i s) = timers s"
  "configRef (settle i s) = configRef s"
  "tenant (settle i s) = tenant s"
  "alertmanager (settle i s) = alertmanager s"
  "form_id (settle i s) = form_id s"
  "formState (settle i s) = formState s"
  "dispatched (settle i s) = dispatched s"
  "invocations w (settle i s) = invocations w s"
  "loads (settle i s) = loads s"
  "marker_queries (settle i s) = marker_queries s"
  by (simp_all add: settle_def setConfigValid_def)

lemma handleSave_frame [simp]:
  "now (handleSave s) = now s"
  "timers (handleSave s) = timers s"
  "configRef (handleSave s) = configRef s"
  "tenant (handleSave s) = tenant s"
  "alertmanager (handleSave s) = alertmanager s"
  "form_id (handleSave s) = form_id s"
  "formState (handleSave s) = formState s"
  "configValid (handleSave s) = configValid s"
  "invocations w (handleSave s) = invocations w s"
  "loads (handleSave s) = loads s"
  "marker_queries (handleSave s) = marker_queries s"
  by (simp_all add: handleSave_def split: option.splits)

lemma click_frame [simp]:
  "now (click s) = now s"
  "timers (click s) = timers s"
  "configRef (click s) = configRef s"
  "tenant (click s) = tenant s"
  "alertmanager (click s) = alertmanager s"
  "form_id (click s) = form_id s"
  "formState (click s) = formState s"
  "configValid (click s) = configValid s"
  "invocations w (click s) = invocations w s"
  "loads (click s) = loads s"
  "marker_queries (click s) = marker_queries s"
  by (simp_all add: click_def split: view.splits)

lemma run_scheduled:
  "timers s = scheduled (now s) h \<Longrightarrow> run env evs s = Inr (ran env h evs s)"
proof (induction env h evs s rule: ran.induct)
  case (1 env h s)
  show ?case by simp
next
  case (2 env h c f evs s)
  have "timers (changed env c f s) = scheduled (now (changed env c f s)) (h @ [(now s, f)])"
    using "2.prems" by (simp add: armed_by_def)
  from "2.IH" [OF this] show ?case
    by (simp add: step_def and_then_def handleConfigChange_eq changed_def)
next
  case (3 env h n evs s)
  have "timers (elapsed env h n s) = scheduled (now (elapsed env h n s)) h"
    using "3.prems" by (simp add: elapsed_timers)
  from "3.IH" [OF this] show ?case
    using "3.prems" by (simp add: step_def and_then_def elapse_scheduled)
next
  case (4 env h i evs s)
  then show ?case by (simp add: step_def and_then_def)
next
  case (5 env h evs s)
  then show ?case by (simp add: step_def and_then_def)
next
  case (6 env h t a fs evs s)
  then show ?case by (simp add: step_def and_then_def)
qed

lemma ran_now: "now (ran env h evs s) = now s + duration evs"
  by (induction env h evs s rule: ran.induct) simp_all

lemma ran_timers:
  "timers s = scheduled (now s) h \<Longrightarrow>
   timers (ran env h evs s) = scheduled (now s + duration evs) (h @ changes (now s) evs)"
proof (induction env h evs s rule: ran.induct)
  case (1 env h s)
  then show ?case by simp
next
  case (2 env h c f evs s)
  have "timers (changed env c f s) = scheduled (now (changed env c f s)) (h @ [(now s, f)])"
    using "2.prems" by (simp add: armed_by_def)
  from "2.IH" [OF this] show ?case by simp
next
  case (3 env h n evs s)
  have "timers (elapsed env h n s) = scheduled (now (elapsed env h n s)) h"
    using "3.prems" by (simp add: elapsed_timers)
  from "3.IH" [OF this] show ?case by (simp add: add.assoc)
next
  case (4 env h i evs s)
  then show ?case by simp
next
  case (5 env h evs s)
  then show ?case by simp
next
  case (6 env h t a fs evs s)
  then show ?case by simp
qed

lemma ran_start:
  "invocations OnChangeStart (ran env h evs s) =
     invocations OnChangeStart s @ map fst (changes (now s) evs)"
  by (induction env h evs s rule: ran.induct) (simp_all add: elapsed_log)

lemma ran_marker_queries: "marker_queries (ran env h evs s) = marker_queries s"
  by (induction env h evs s rule: ran.induct) (simp_all add: elapsed_log)

lemma changes_later: "c \<in> set (changes t evs) \<Longrightarrow> t \<le> fst c"
  by (induction t evs rule: changes.induct) auto

lemma window_later:
  "\<forall>c\<in>set h. b \<le> fst c \<Longrightarrow> a \<le> b \<Longrightarrow> window b u h = window a u h"
  unfolding window_def by (rule arg_cong [where f = length], rule filter_cong) auto

lemma ran_pause:
  "length (invocations OnChangePause (ran env h evs s)) =
     length (invocations OnChangePause s) +
     window (now s) (now s + duration evs) (h @ changes (now s) evs)"
proof (induction env h evs s rule: ran.induct)
  case (1 env h s)
  show ?case by (simp add: window_def)
next
  case (2 env h c f evs s)
  then show ?case by simp
next
  case (3 env h n evs s)
  have a: "window (now s) (now s + n) h + window (now s + n) (now s + n + duration evs) h =
           window (now s) (now s + n + duration evs) h"
    by (rule window_split) simp_all
  have b: "window (now s + n) (now s + n + duration evs) (changes (now s + n) evs) =
           window (now s) (now s + n + duration evs) (changes (now s + n) evs)"
    by (rule window_later) (auto dest: changes_later)
  from "3.IH" a b show ?case
    by (simp add: elapsed_pause add.assoc)
next
  case (4 env h i evs s)
  then show ?case by simp
next
  case (5 env h evs s)
  then show ?case by simp
next
  case (6 env h t a fs evs s)
  then show ?case by simp
qed

lemma mount_fields [simp]:
  "now (mount t a fid fs t0) = t0"
  "timers (mount t a fid fs t0) = []"
  "calls (mount t a fid fs t0) = []"
  "invocations w (mount t a fid fs t0) = []"
  "loads (mount t a fid fs t0) = []"
  "marker_queries (mount t a fid fs t0) = []"
  by (simp_all add: mount_def invocations_def loads_def marker_queries_def)

lemma run_mounted:
  "run env evs (mount t a fid fs t0) = Inr (ran env [] evs (mount t a fid fs t0))"
  by (rule run_scheduled) simp

text \<open>The promises and the verdict after checks, by the parse of the text in \<^verbatim>\<open>configRef\<close>.\<close>

lemma outcomes_add: "outcomes env text (j + k) = outcomes env text j @ outcomes env text k"
  by (simp add: outcomes_def replicate_add split: sum.splits)

lemma outcomes_0 [simp]: "outcomes env text 0 = []"
  by (simp add: outcomes_def split: sum.splits)

lemma verdict_after_0 [simp]: "verdict_after env text 0 v = v"
  by (simp add: verdict_after_def split: sum.splits)

lemma verdict_after_add:
  "verdict_after env text k (verdict_after env text j v) = verdict_after env text (j + k) v"
  by (simp add: verdict_after_def split: sum.splits)

lemma outcomes_Suc: "outcomes env text (Suc k) = outcomes env text 1 @ outcomes env text k"
  using outcomes_add [of env "text" 1 k] by simp

lemma verdict_after_Suc:
  "verdict_after env text (Suc k) v = verdict_after env text k (verdict_after env text 1 v)"
  using verdict_after_add [of env "text" k 1 v] by simp

lemma after_check_parse:
  "pending (after_check env w s) = pending s @ outcomes env (configRef s) 1"
  "configValid (after_check env w s) = verdict_after env (configRef s) 1 (configValid s)"
  by (simp_all add: after_check_def outcomes_def verdict_after_def split: sum.splits)

lemma pauses_Cons:
  "pauses (d # ds) = (if wrapper d = OnChangePause then 1 else 0) + pauses ds"
  by (simp add: pauses_def)

lemma fired_pending:
  "pending (fired env ds s) = pending s @ outcomes env (configRef s) (pauses ds)"
proof (induction ds arbitrary: s)
  case Nil
  show ?case by (simp add: pauses_def)
next
  case (Cons d ds)
  show ?case
    by (simp add: Cons.IH after_check_parse pauses_Cons outcomes_add del: One_nat_def)
qed

lemma fired_verdict:
  "configValid (fired env ds s) = verdict_after env (configRef s) (pauses ds) (configValid s)"
proof (induction ds arbitrary: s)
  case Nil
  show ?case by (simp add: pauses_def)
next
  case (Cons d ds)
  show ?case
    by (simp add: Cons.IH after_check_parse pauses_Cons verdict_after_add del: One_nat_def)
qed

lemma ticked_parse:
  "pending (ticked env h s) =
     pending s @ outcomes env (configRef s) (window (now s) (Suc (now s)) h)"
  "configValid (ticked env h s) =
     verdict_after env (configRef s) (window (now s) (Suc (now s)) h) (configValid s)"
  by (simp_all add: ticked_def fired_pending fired_verdict pauses_due_scheduled)

lemma window_Suc:
  "window a (Suc (a + n)) h = window a (Suc a) h + window (Suc a) (Suc (a + n)) h"
proof -
  have "window a (Suc a) h + window (Suc a) (Suc (a + n)) h = window a (Suc (a + n)) h"
    by (rule window_split) simp_all
  then show ?thesis by simp
qed

lemma elapsed_pending:
  "pending (elapsed env h n s) =
     pending s @ outcomes env (configRef s) (window (now s) (now s + n) h)"
proof (induction n arbitrary: s)
  case 0
  show ?case by (simp add: window_def)
next
  case (Suc n)
  show ?case
    by (simp add: Suc.IH ticked_parse window_Suc [of "now s"] outcomes_add)
qed

lemma elapsed_verdict:
  "configValid (elapsed env h n s) =
     verdict_after env (configRef s) (window (now s) (now s + n) h) (configValid s)"
proof (induction n arbitrary: s)
  case 0
  show ?case by (simp add: window_def)
next
  case (Suc n)
  show ?case
    by (simp add: Suc.IH ticked_parse window_Suc [of "now s"] verdict_after_add)
qed

lemma changed_parse:
  "pending (changed env c f s) = pending s @ outcomes env c 1"
  "configValid (changed env c f s) = verdict_after env c 1 (configValid s)"
  by (simp_all add: changed_def after_check_parse)

text \<open>
  A mounted component, after any run: every change has invoked the leading check at
  once, the trailing check has run once for every change whose 500 ms have passed, and
  no marker query was made.
\<close>

lemma every_change_invokes_leading_check:
  "\<exists>s'. run env evs (mount t a fid fs t0) = Inr s' \<and>
        invocations OnChangeStart s' = map fst (changes t0 evs)"
  by (simp add: run_mounted ran_start del: ran.simps)

lemma every_change_invokes_trailing_check:
  "\<exists>s'. run env evs (mount t a fid fs t0) = Inr s' \<and>
        now s' = t0 + duration evs \<and>
        length (invocations OnChangePause s') = window t0 (t0 + duration evs) (changes t0 evs)"
  by (simp add: run_mounted ran_now ran_pause del: ran.simps)

lemma no_run_queries_markers:
  "\<exists>s'. run env evs (mount t a fid fs t0) = Inr s' \<and> marker_queries s' = []"
  by (simp add: run_mounted ran_marker_queries del: ran.simps)

section \<open>The stored verdict is never read\<close>

lemma erase_fields:
  assumes "erase s = erase s'"
  shows "tenant s = tenant s'" "alertmanager s = alertmanager s'" "form_id s = form_id s'"
    "formState s = formState s'" "configRef s = configRef s'" "now s = now s'"
    "timers s = timers s'" "pending s = pending s'" "calls s = calls s'"
    "dispatched s = dispatched s'"
  using assms by (cases s; cases s'; simp add: erase_def)+

lemma erase_update: "erase s = erase s' \<Longrightarrow> s = s'\<lparr>configValid := configValid s\<rparr>"
  by (cases s; cases s'; simp add: erase_def)

lemma erase_simps [simp]:
  "erase (s\<lparr>configValid := v\<rparr>) = erase s"
  "erase (setConfigValid b s) = erase s"
  by (simp_all add: erase_def setConfigValid_def)

lemma agree_Inr [simp]: "agree (Inr s) (Inr s') = (erase s = erase s')"
  by (simp add: agree_def)

lemma agreeE:
  assumes "agree r r'"
  obtains s s' where "r = Inr s" "r' = Inr s'" "erase s = erase s'"
  using assms by (auto simp: agree_def split: sum.splits)

lemma agree_and_then:
  assumes "agree r r'" and "\<And>s s'. erase s = erase s' \<Longrightarrow> agree (f s) (f s')"
  shows "agree (and_then r f) (and_then r' f)"
  using assms by (auto simp: and_then_def elim!: agreeE)

lemma validationCheck_update:
  "agree (validationCheck env filename options (s\<lparr>configValid := v\<rparr>))
     (validationCheck env filename options s)"
  by (simp add: validationCheck_def query_markers_def try_catch_def try_block_def and_then_def
      record_call_def setConfigValid_def erase_def Let_def split: sum.splits)

lemma erase_lift:
  assumes "\<And>s v. erase (f (s\<lparr>configValid := v\<rparr>)) = erase (f s)" and "erase s = erase s'"
  shows "erase (f s) = erase (f s')"
proof -
  have "f s = f (s'\<lparr>configValid := configValid s\<rparr>)"
    using erase_update [OF assms(2)] by simp
  then show ?thesis by (simp add: assms(1))
qed

lemma validationCheck_agree:
  assumes "erase s = erase s'"
  shows "agree (validationCheck env filename options s) (validationCheck env filename options s')"
proof -
  have "validationCheck env filename options s =
        validationCheck env filename options (s'\<lparr>configValid := configValid s\<rparr>)"
    using erase_update [OF assms] by simp
  then show ?thesis by (simp add: validationCheck_update)
qed

lemma invoke_agree:
  assumes "erase s = erase s'"
  shows "agree (invoke env w invocation s) (invoke env w invocation s')"
proof (cases invocation)
  case None
  with assms show ?thesis by (simp add: invoke_def)
next
  case (Some args)
  obtain filename options where args: "args = (filename, options)" by (cases args)
  have "erase (record_call (Invoke w (now s)) s) = erase (record_call (Invoke w (now s')) s')"
    by (rule erase_lift [OF _ assms]) (simp add: record_call_def erase_def)
  from validationCheck_agree [OF this] show ?thesis
    using Some args by (simp add: invoke_def)
qed

lemma arm_agree: "erase s = erase s' \<Longrightarrow> erase (arm d s) = erase (arm d s')"
  by (rule erase_lift) (simp_all add: arm_def erase_def)

lemma fire_agree: "erase s = erase s' \<Longrightarrow> agree (fire env ds s) (fire env ds s')"
proof (induction ds arbitrary: s s')
  case Nil
  then show ?case by simp
next
  case (Cons d ds)
  obtain d' invocation where te: "timerExpired (now s) d = (d', invocation)"
    by (cases "timerExpired (now s) d")
  have now: "now s' = now s" using erase_fields(6) [OF Cons.prems] by simp
  have "agree (invoke env (wrapper d) invocation (arm d' s))
          (invoke env (wrapper d) invocation (arm d' s'))"
    by (rule invoke_agree) (rule arm_agree [OF Cons.prems])
  then have "agree (and_then (invoke env (wrapper d) invocation (arm d' s)) (fire env ds))
               (and_then (invoke env (wrapper d) invocation (arm d' s')) (fire env ds))"
    by (rule agree_and_then) (rule Cons.IH)
  then show ?case by (simp add: te now)
qed

lemma tick_agree:
  assumes "erase s = erase s'"
  shows "agree (tick env s) (tick env s')"
proof -
  let ?u = "now s + 1"
  have same: "now s' = now s" "timers s' = timers s"
    using erase_fields [OF assms] by simp_all
  have "erase (s\<lparr>now := ?u, timers := filter (\<lambda>d. \<not> due ?u d) (timers s)\<rparr>) =
        erase (s'\<lparr>now := ?u, timers := filter (\<lambda>d. \<not> due ?u d) (timers s)\<rparr>)"
    by (rule erase_lift [OF _ assms]) (simp add: erase_def)
  from fire_agree [OF this] show ?thesis
    by (simp add: tick_def Let_def same)
qed

lemma elapse_agree: "erase s = erase s' \<Longrightarrow> agree (elapse env n s) (elapse env n s')"
proof (induction n arbitrary: s s')
  case 0
  then show ?case by simp
next
  case (Suc n)
  have "agree (and_then (tick env s) (elapse env n)) (and_then (tick env s') (elapse env n))"
    by (rule agree_and_then [OF tick_agree [OF Suc.prems]]) (rule Suc.IH)
  then show ?case by simp
qed

lemma changed_agree:
  assumes "erase s = erase s'"
  shows "erase (changed env c f s) = erase (changed env c f s')"
proof -
  have "erase (changed env c f (s\<lparr>configValid := v\<rparr>)) = erase (changed env c f s)" for s v
    by (simp add: changed_def after_check_def erase_def split: sum.splits)
  from erase_lift [of "changed env c f", OF this assms] show ?thesis .
qed

lemma render_erase [simp]: "render (erase s) = render s"
  by (simp add: render_def erase_def split: option.splits)

lemma handleSave_agree:
  assumes "erase s = erase s'"
  shows "erase (handleSave s) = erase (handleSave s')"
proof -
  have "erase (handleSave (s\<lparr>configValid := v\<rparr>)) = erase (handleSave s)" for s v
    by (simp add: handleSave_def erase_def split: option.splits)
  from erase_lift [of handleSave, OF this assms] show ?thesis .
qed

lemma click_agree:
  assumes "erase s = erase s'"
  shows "erase (click s) = erase (click s')"
proof -
  have "render s = render s'"
    using assms render_erase by metis
  then show ?thesis
    using assms handleSave_agree [OF assms] by (simp add: click_def split: view.splits)
qed

lemma settle_agree:
  assumes "erase s = erase s'"
  shows "erase (settle i s) = erase (settle i s')"
  by (rule erase_lift [OF _ assms]) (simp add: settle_def erase_def setConfigValid_def)

lemma step_agree:
  assumes "erase s = erase s'"
  shows "agree (step env ev s) (step env ev s')"
proof (cases ev)
  case (Change c f)
  then show ?thesis
    using changed_agree [OF assms] by (simp add: step_def handleConfigChange_eq changed_def)
next
  case (Elapse n)
  then show ?thesis using elapse_agree [OF assms] by (simp add: step_def)
next
  case (Settle i)
  then show ?thesis using settle_agree [OF assms] by (simp add: step_def)
next
  case Click
  then show ?thesis using click_agree [OF assms] by (simp add: step_def)
next
  case (Store t a fs)
  have "erase (s\<lparr>tenant := t, alertmanager := a, formState := fs\<rparr>) =
        erase (s'\<lparr>tenant := t, alertmanager := a, formState := fs\<rparr>)"
    by (rule erase_lift [OF _ assms]) (simp add: erase_def)
  with Store show ?thesis by (simp add: step_def)
qed

lemma run_agree: "erase s = erase s' \<Longrightarrow> agree (run env evs s) (run env evs s')"
proof (induction evs arbitrary: s s')
  case Nil
  then show ?case by simp
next
  case (Cons ev evs)
  have "agree (and_then (step env ev s) (run env evs)) (and_then (step env ev s') (run env evs))"
    by (rule agree_and_then [OF step_agree [OF Cons.prems]]) (rule Cons.IH)
  then show ?case by simp
qed

text \<open>No handler throws: every run completes.\<close>

lemma run_returns: "\<exists>s'. run env evs s = Inr s'"
proof -
  have "agree (run env evs s) (run env evs s)"
    by (rule run_agree) simp
  then show ?thesis
    by (auto elim: agreeE)
qed

section \<open>The properties of the specification\<close>

text \<open>
  C1. The claim: in a burst of changes within one 300 ms window the leading-edge check
  runs exactly once. At the burst of ten changes 5 ms apart, mounted at time 0, the
  component runs the leading-edge check ten times, once at each change: every call of
  \<^verbatim>\<open>handleConfigChange\<close> builds a new wrapper, and a new wrapper always invokes at once.
\<close>

theorem burst_runs_leading_check_ten_times:
  "\<exists>s'. run env burst (mount t a fid fs 0) = Inr s' \<and>
        now s' = 50 \<and>
        invocations OnChangeStart s' = [0, 5, 10, 15, 20, 25, 30, 35, 40, 45]"
proof -
  obtain s' where "run env burst (mount t a fid fs 0) = Inr s'"
    and "invocations OnChangeStart s' = map fst (changes 0 burst)"
    using every_change_invokes_leading_check by blast
  moreover have "now s' = 0 + duration burst" if "run env burst (mount t a fid fs 0) = Inr s'"
    using that every_change_invokes_trailing_check [of env burst t a fid fs 0] by auto
  ultimately show ?thesis
    by (simp add: burst_def)
qed

text \<open>
  C2. The claim: the trailing check runs exactly once after editing pauses for 500 ms.
  After three changes 100 ms apart and a pause of one second, the component has run
  the trailing check three times, once for each change.
\<close>

theorem pause_runs_trailing_check_per_edit:
  "\<exists>s'. run env three_edits_then_pause (mount t a fid fs 0) = Inr s' \<and>
        now s' = 1200 \<and>
        length (invocations OnChangePause s') = 3"
proof -
  have d: "duration three_edits_then_pause = 1200"
    by (simp add: three_edits_then_pause_def)
  have w: "window 0 1200 (changes 0 three_edits_then_pause) = 3"
    by (simp add: three_edits_then_pause_def window_def)
  from every_change_invokes_trailing_check [of env three_edits_then_pause t a fid fs 0]
  show ?thesis
    by (simp add: d w)
qed

text \<open>
  C3. The claim: every trailing attempt queries the editor's markers for the filename.
  After a change and 500 ms, the trailing check has run and has parsed the text, and
  no marker query was made, whatever markers the editor holds: the wrapper is called
  with the filename alone, so \<^verbatim>\<open>options?.useModelMarkers\<close> is undefined.
\<close>

theorem trailing_check_never_queries_markers:
  "\<exists>s'. run env [Change newConfig filename, Elapse 500] (mount t a fid fs t0) = Inr s' \<and>
        length (invocations OnChangePause s') = 1 \<and>
        loads s' = [newConfig, newConfig] \<and>
        marker_queries s' = []"
  by (simp add: run_mounted elapsed_pause elapsed_loads elapsed_log window_def)

text \<open>
  C4. When the marker list queried by a validation attempt is not empty, the attempt
  returns normally with the verdict set to false, and it has called neither the parser
  nor the schema validator: the log holds no new parse and no new schema validation,
  and no promise was added.
\<close>

theorem markers_short_circuit:
  assumes "fst (query_markers env filename options s) \<noteq> []"
  shows "\<exists>s'. validationCheck env filename options s = Inr s' \<and>
              configValid s' = Some False \<and>
              loads s' = loads s \<and>
              schema_validations s' = schema_validations s \<and>
              pending s' = pending s"
  using assms
  by (auto simp: validationCheck_def query_markers_def setConfigValid_def record_call_def
      loads_def schema_validations_def split: if_splits)

theorem markers_short_circuit_witness:
  "fst (query_markers example_env ''alertmanager-config.yaml'' (Some \<lparr>useModelMarkers = True\<rparr>)
          example_state) \<noteq> [] \<and>
   (\<exists>s'. validationCheck example_env ''alertmanager-config.yaml''
            (Some \<lparr>useModelMarkers = True\<rparr>) example_state = Inr s' \<and>
         configValid s' = Some False \<and>
         loads s' = loads example_state \<and>
         schema_validations s' = schema_validations example_state \<and>
         pending s' = pending example_state)"
proof -
  have h: "fst (query_markers example_env ''alertmanager-config.yaml''
                  (Some \<lparr>useModelMarkers = True\<rparr>) example_state) \<noteq> []"
    by (simp add: query_markers_def example_env_def)
  from markers_short_circuit [OF h] h show ?thesis by simp
qed

text \<open>
  C5. When the parser throws on a text, a validation attempt on that text returns
  normally with the verdict set to false, whatever its options: the exception is caught
  inside \<^verbatim>\<open>validationCheck\<close>. The same holds for the change handler that receives
  the text: it returns normally, and the verdict is false when it returns. And every
  run that starts with that change completes: no later check throws either.
\<close>

theorem parse_failure_is_invalid:
  assumes "yamlLoad env text = Inl e"
  shows "(\<exists>s'. validationCheck env filename options (s\<lparr>configRef := text\<rparr>) = Inr s' \<and>
               configValid s' = Some False) \<and>
         (\<exists>s'. handleConfigChange env text filename s = Inr s' \<and>
               configValid s' = Some False) \<and>
         (\<exists>s'. run env (Change text filename # evs) s = Inr s')"
proof (intro conjI)
  show "\<exists>s'. run env (Change text filename # evs) s = Inr s'"
    by (rule run_returns)
  show "\<exists>s'. validationCheck env filename options (s\<lparr>configRef := text\<rparr>) = Inr s' \<and>
             configValid s' = Some False"
    using assms
    by (simp add: validationCheck_def query_markers_def try_catch_def try_block_def and_then_def
        record_call_def setConfigValid_def Let_def)
  show "\<exists>s'. handleConfigChange env text filename s = Inr s' \<and> configValid s' = Some False"
    using assms by (simp add: handleConfigChange_eq after_check_def)
qed

theorem parse_failure_is_invalid_witness:
  "yamlLoad example_env ''route: ['' = Inl (YAMLException ''unexpected end of the stream'') \<and>
   (\<exists>s'. validationCheck example_env ''alertmanager-config.yaml'' None
            (example_state\<lparr>configRef := ''route: [''\<rparr>) = Inr s' \<and>
         configValid s' = Some False) \<and>
   (\<exists>s'. handleConfigChange example_env ''route: ['' ''alertmanager-config.yaml'' example_state =
            Inr s' \<and>
         configValid s' = Some False) \<and>
   (\<exists>s'. run example_env [Change ''route: ['' ''alertmanager-config.yaml'', Elapse 500]
            example_state = Inr s')"
proof -
  have h: "yamlLoad example_env ''route: ['' = Inl (YAMLException ''unexpected end of the stream'')"
    by (simp add: example_env_def)
  from parse_failure_is_invalid [OF h, of "''alertmanager-config.yaml''" None example_state
      "[Elapse 500]"] h
  show ?thesis by blast
qed

text \<open>
  C6. A validation attempt hands the parser the text held by \<^verbatim>\<open>configRef\<close> when it
  executes: what the attempt does is decided by the parse of that text. When the parser
  throws on it the verdict is false and no promise is added; when it returns, the
  promise of the schema validation of that very result is added and the verdict is
  left alone. \<^verbatim>\<open>handleConfigChange\<close> stores the new text before it calls a wrapper:
  the check it runs at once is decided by the parse of the new text. And after any run
  of a mounted component, every check that executes after a further change, within any
  \<open>n\<close> milliseconds of it, is decided by the parse of the text of that change: the
  check the change runs at once, and each trailing check whose timer expires in that
  time, those set by earlier changes included.
\<close>

theorem checks_parse_current_text:
  "(\<exists>s'. validationCheck env filename options s = Inr s' \<and>
         (if fst (query_markers env filename options s) = [] then
            loads s' = loads s @ [configRef s] \<and>
            (case yamlLoad env (configRef s) of
               Inl e \<Rightarrow> pending s' = pending s \<and> configValid s' = Some False
             | Inr parsedData \<Rightarrow>
                 pending s' = pending s @ [schemaValidate env parsedData] \<and>
                 configValid s' = configValid s)
          else loads s' = loads s \<and> pending s' = pending s \<and> configValid s' = Some False)) \<and>
   (\<exists>s'. handleConfigChange env newConfig filename s = Inr s' \<and>
         configRef s' = newConfig \<and>
         loads s' = loads s @ [newConfig] \<and>
         (case yamlLoad env newConfig of
            Inl e \<Rightarrow> pending s' = pending s \<and> configValid s' = Some False
          | Inr parsedData \<Rightarrow>
              pending s' = pending s @ [schemaValidate env parsedData] \<and>
              configValid s' = configValid s)) \<and>
   (\<exists>s s'. run env evs (mount t a fid fs t0) = Inr s \<and>
           now s = t0 + duration evs \<and>
           run env [Change newConfig filename, Elapse n] s = Inr s' \<and>
           configRef s' = newConfig \<and>
           loads s' =
             loads s @
             replicate (Suc (window (now s) (now s + n) (changes t0 evs @ [(now s, filename)])))
               newConfig \<and>
           (case yamlLoad env newConfig of
              Inl e \<Rightarrow> pending s' = pending s \<and> configValid s' = Some False
            | Inr parsedData \<Rightarrow>
                pending s' =
                  pending s @
                  replicate
                    (Suc (window (now s) (now s + n) (changes t0 evs @ [(now s, filename)])))
                    (schemaValidate env parsedData) \<and>
                configValid s' = configValid s))"
proof (intro conjI)
  show "\<exists>s'. validationCheck env filename options s = Inr s' \<and>
         (if fst (query_markers env filename options s) = [] then
            loads s' = loads s @ [configRef s] \<and>
            (case yamlLoad env (configRef s) of
               Inl e \<Rightarrow> pending s' = pending s \<and> configValid s' = Some False
             | Inr parsedData \<Rightarrow>
                 pending s' = pending s @ [schemaValidate env parsedData] \<and>
                 configValid s' = configValid s)
          else loads s' = loads s \<and> pending s' = pending s \<and> configValid s' = Some False)"
    by (simp add: validationCheck_def query_markers_def try_catch_def try_block_def and_then_def
        record_call_def setConfigValid_def loads_def Let_def split: sum.splits)
  show "\<exists>s'. handleConfigChange env newConfig filename s = Inr s' \<and>
         configRef s' = newConfig \<and>
         loads s' = loads s @ [newConfig] \<and>
         (case yamlLoad env newConfig of
            Inl e \<Rightarrow> pending s' = pending s \<and> configValid s' = Some False
          | Inr parsedData \<Rightarrow>
              pending s' = pending s @ [schemaValidate env parsedData] \<and>
              configValid s' = configValid s)"
    by (simp add: handleConfigChange_eq changed_parse [unfolded changed_def] outcomes_def
        verdict_after_def split: sum.splits)
  let ?s = "ran env [] evs (mount t a fid fs t0)"
  let ?h = "changes t0 evs"
  let ?s' = "ran env ?h [Change newConfig filename, Elapse n] ?s"
  let ?k = "Suc (window (now ?s) (now ?s + n) (?h @ [(now ?s, filename)]))"
  have s: "run env evs (mount t a fid fs t0) = Inr ?s"
    by (rule run_mounted)
  have now: "now ?s = t0 + duration evs"
    by (simp add: ran_now)
  have sched: "timers ?s = scheduled (now ?s) ?h"
    using ran_timers [of "mount t a fid fs t0" "[]" env evs] by (simp add: ran_now)
  have s': "run env [Change newConfig filename, Elapse n] ?s = Inr ?s'"
    by (rule run_scheduled [OF sched])
  have ref: "configRef ?s' = newConfig"
    by simp
  have lds: "loads ?s' = loads ?s @ replicate ?k newConfig"
    by (simp add: elapsed_loads replicate_app_Cons_same del: window_append)
  have pnd: "pending ?s' = pending ?s @ outcomes env newConfig ?k"
    by (simp add: elapsed_pending changed_parse outcomes_Suc del: window_append One_nat_def)
  have vrd: "configValid ?s' = verdict_after env newConfig ?k (configValid ?s)"
    by (simp add: elapsed_verdict changed_parse verdict_after_Suc del: window_append One_nat_def)
  have "case yamlLoad env newConfig of
          Inl e \<Rightarrow> pending ?s' = pending ?s \<and> configValid ?s' = Some False
        | Inr parsedData \<Rightarrow>
            pending ?s' = pending ?s @ replicate ?k (schemaValidate env parsedData) \<and>
            configValid ?s' = configValid ?s"
    unfolding pnd vrd by (simp add: outcomes_def verdict_after_def split: sum.splits)
  with s now s' ref lds
  show "\<exists>s s'. run env evs (mount t a fid fs t0) = Inr s \<and>
           now s = t0 + duration evs \<and>
           run env [Change newConfig filename, Elapse n] s = Inr s' \<and>
           configRef s' = newConfig \<and>
           loads s' =
             loads s @
             replicate (Suc (window (now s) (now s + n) (changes t0 evs @ [(now s, filename)])))
               newConfig \<and>
           (case yamlLoad env newConfig of
              Inl e \<Rightarrow> pending s' = pending s \<and> configValid s' = Some False
            | Inr parsedData \<Rightarrow>
                pending s' =
                  pending s @
                  replicate
                    (Suc (window (now s) (now s + n) (changes t0 evs @ [(now s, filename)])))
                    (schemaValidate env parsedData) \<and>
                configValid s' = configValid s)"
    by blast
qed

text \<open>
  An instance: a first change whose text the parser rejects, a second change 100 ms
  later whose text parses. When the trailing check set by the first change runs, 400 ms
  after the second, it validates the second text: both checks after the second change
  add the promise of a valid document, and neither sets the verdict.
\<close>

theorem checks_parse_current_text_witness:
  "\<exists>s s'. run example_env [Change ''route: ['' ''alertmanager-config.yaml'', Elapse 100]
             example_state = Inr s \<and>
          run example_env [Change ''route: {}'' ''alertmanager-config.yaml'', Elapse 400] s =
            Inr s' \<and>
          configRef s' = ''route: {}'' \<and>
          loads s' = loads s @ [''route: {}'', ''route: {}''] \<and>
          pending s' = pending s @ [True, True] \<and>
          configValid s' = configValid s"
proof -
  have w: "window 100 500
             (changes 0 [Change ''route: ['' ''alertmanager-config.yaml'', Elapse 100] @
              [(100, ''alertmanager-config.yaml'')]) = 1"
    by (simp add: window_def)
  have y: "yamlLoad example_env ''route: {}'' = Inr 9"
    by (simp add: example_env_def)
  have v: "schemaValidate example_env 9"
    by (simp add: example_env_def)
  from checks_parse_current_text
    [where env = example_env and options = None and s = example_state
      and evs = "[Change ''route: ['' ''alertmanager-config.yaml'', Elapse 100]"
      and t = "Some \<lparr>name = ''prod''\<rparr>"
      and a = "Some \<lparr>am_header = None, am_config = Some ''route: {}''\<rparr>"
      and fid = "''form-1''" and fs = "\<lparr>status = ''active'', data = defaultData\<rparr>" and ?t0.0 = 0
      and newConfig = "''route: {}''" and filename = "''alertmanager-config.yaml''" and n = 400]
  obtain s s' where
    "run example_env [Change ''route: ['' ''alertmanager-config.yaml'', Elapse 100]
       example_state = Inr s"
    "now s = 100"
    "run example_env [Change ''route: {}'' ''alertmanager-config.yaml'', Elapse 400] s = Inr s'"
    "configRef s' = ''route: {}''"
    "loads s' = loads s @ replicate (Suc (window (now s) (now s + 400)
        (changes 0 [Change ''route: ['' ''alertmanager-config.yaml'', Elapse 100] @
         [(now s, ''alertmanager-config.yaml'')]))) ''route: {}''"
    "pending s' = pending s @ replicate (Suc (window (now s) (now s + 400)
        (changes 0 [Change ''route: ['' ''alertmanager-config.yaml'', Elapse 100] @
         [(now s, ''alertmanager-config.yaml'')]))) True"
    "configValid s' = configValid s"
    unfolding example_state_def [symmetric] by (auto simp: y v)
  then show ?thesis
    using w by (auto simp del: window_append)
qed

text \<open>
  C7. With the tenant loaded, so that the card with the publish button is rendered: for
  every value of the stored verdict the button is disabled exactly when the form's
  status is not \<^verbatim>\<open>active\<close>. A click on the disabled button changes nothing. A click on
  the enabled button, with a tenant whose name is not empty, dispatches the current
  text of \<^verbatim>\<open>configRef\<close> with the tenant's name, the header and the form id.
\<close>

theorem publish_enabled_iff_form_active:
  assumes "tenant s = Some t"
  shows "(\<exists>ttl f d p. render (s\<lparr>configValid := v\<rparr>) =
                      Card ttl f d (status (formState s) \<noteq> ''active'') p) \<and>
         (status (formState s) \<noteq> ''active'' \<longrightarrow> click (s\<lparr>configValid := v\<rparr>) = s\<lparr>configValid := v\<rparr>) \<and>
         (status (formState s) = ''active'' \<and> name t \<noteq> [] \<longrightarrow>
            click (s\<lparr>configValid := v\<rparr>) =
              s\<lparr>configValid := v,
                dispatched := dispatched s @
                  [\<lparr>tenantId = name t,
                    header = or_empty (case alertmanager s of None \<Rightarrow> None | Some a \<Rightarrow> am_header a),
                    config = configRef s,
                    formId = form_id s\<rparr>]\<rparr>)"
  using assms by (simp add: render_def click_def handleSave_def)

theorem publish_enabled_iff_form_active_witness:
  "tenant example_state = Some \<lparr>name = ''prod''\<rparr> \<and>
   status (formState example_state) = ''active'' \<and>
   name \<lparr>name = ''prod''\<rparr> \<noteq> [] \<and>
   (\<exists>ttl f d p. render (example_state\<lparr>configValid := Some False\<rparr>) = Card ttl f d False p) \<and>
   click (example_state\<lparr>configValid := Some False\<rparr>) =
     example_state
       \<lparr>configValid := Some False,
        dispatched :=
          [\<lparr>tenantId = ''prod'', header = [], config = ''route: {}'', formId = ''form-1''\<rparr>]\<rparr> \<and>
   status (formState (example_state\<lparr>formState := \<lparr>status = ''saving'', data = defaultData\<rparr>\<rparr>)) \<noteq>
     ''active'' \<and>
   click (example_state\<lparr>formState := \<lparr>status = ''saving'', data = defaultData\<rparr>,
                        configValid := Some True\<rparr>) =
     example_state\<lparr>formState := \<lparr>status = ''saving'', data = defaultData\<rparr>,
                   configValid := Some True\<rparr>"
proof -
  have t: "tenant example_state = Some \<lparr>name = ''prod''\<rparr>"
    by (simp add: example_state_def mount_def)
  have t': "tenant (example_state\<lparr>formState := \<lparr>status = ''saving'', data = defaultData\<rparr>\<rparr>) =
            Some \<lparr>name = ''prod''\<rparr>"
    by (simp add: example_state_def mount_def)
  show ?thesis
    using publish_enabled_iff_form_active [OF t, of "Some False"]
      publish_enabled_iff_form_active [OF t', of "Some True"] t
    by (simp add: example_state_def mount_def or_empty_def)
qed

text \<open>
  C8. The error panel renders exactly when the response's \<^verbatim>\<open>success\<close> is false. For a
  failed response with raw error text \<open>x\<close> the panel's content is \<open>x\<close>; for a
  successful response nothing is rendered. The rendered card shows this panel for the
  response held by the form state.
\<close>

theorem error_panel_iff_not_success:
  "(ErrorPanel response \<noteq> None) = (\<not> success response) \<and>
   ErrorPanel \<lparr>success = False, error_raw_response = Some x\<rparr> =
     Some \<lparr>panel_title = ''Error: Service side validation failed'', panel_content = Some x\<rparr> \<and>
   ErrorPanel \<lparr>success = True, error_raw_response = e\<rparr> = None \<and>
   error_panel
     (render (s\<lparr>tenant := Some t,
                formState := \<lparr>status = st, data = \<lparr>remoteValidation = response\<rparr>\<rparr>\<rparr>)) =
     ErrorPanel response"
  by (simp add: ErrorPanel_def CondRender_def render_def)

text \<open>
  C9. Two runs of the same events from states that differ only in the stored verdict
  both complete, and end with the same rendered view and the same dispatched requests.
\<close>

theorem view_independent_of_verdict:
  "\<exists>s1 s2. run env evs (s\<lparr>configValid := v\<rparr>) = Inr s1 \<and> run env evs s = Inr s2 \<and>
           render s1 = render s2 \<and> dispatched s1 = dispatched s2"
proof -
  have "agree (run env evs (s\<lparr>configValid := v\<rparr>)) (run env evs s)"
    by (rule run_agree) simp
  then obtain s1 s2 where r: "run env evs (s\<lparr>configValid := v\<rparr>) = Inr s1"
    "run env evs s = Inr s2" "erase s1 = erase s2"
    by (rule agreeE)
  from r(3) have "render s1 = render s2" using render_erase by metis
  moreover from r(3) have "dispatched s1 = dispatched s2" by (rule erase_fields)
  ultimately show ?thesis using r by blast
qed

text \<open>
  C10. When the tenant is undefined or its name is empty, \<^verbatim>\<open>handleSave\<close> returns the
  state unchanged. Otherwise it appends exactly one request to the dispatched ones,
  whose header is the empty string when the alertmanager record or its header is
  absent, and changes nothing else.
\<close>

theorem handleSave_dispatch:
  "(tenant_name_absent s \<longrightarrow> handleSave s = s) \<and>
   (\<not> tenant_name_absent s \<longrightarrow>
      (\<exists>t. tenant s = Some t \<and>
           handleSave s =
             s\<lparr>dispatched := dispatched s @
                 [\<lparr>tenantId = name t,
                   header = (case alertmanager s of
                               None \<Rightarrow> []
                             | Some a \<Rightarrow> (case am_header a of None \<Rightarrow> [] | Some h \<Rightarrow> h)),
                   config = configRef s,
                   formId = form_id s\<rparr>]\<rparr>))"
  by (auto simp: tenant_name_absent_def handleSave_def or_empty_def split: option.splits)

theorem handleSave_dispatch_witness:
  "tenant_name_absent loading_state \<and> handleSave loading_state = loading_state \<and>
   tenant_name_absent (example_state\<lparr>tenant := Some \<lparr>name = []\<rparr>\<rparr>) \<and>
   handleSave (example_state\<lparr>tenant := Some \<lparr>name = []\<rparr>\<rparr>) =
     example_state\<lparr>tenant := Some \<lparr>name = []\<rparr>\<rparr> \<and>
   \<not> tenant_name_absent example_state \<and>
   handleSave example_state =
     example_state
       \<lparr>dispatched :=
          [\<lparr>tenantId = ''prod'', header = [], config = ''route: {}'', formId = ''form-1''\<rparr>]\<rparr>"
  using handleSave_dispatch [of loading_state]
    handleSave_dispatch [of "example_state\<lparr>tenant := Some \<lparr>name = []\<rparr>\<rparr>"]
    handleSave_dispatch [of example_state]
  by (simp add: tenant_name_absent_def loading_state_def example_state_def mount_def or_empty_def)

end
